theory Spec2Isabelle
  imports Main "HOL-Library.Char_ord" "HOL-Library.List_Lexorder"
begin

section \<open>Python string operations used by the program\<close>

text \<open>
  Strings are \<open>char list\<close>. The definitions below follow the Python built-ins the
  source calls: \<open>str.startswith\<close>, \<open>str.endswith\<close>, the substring test \<open>sub in s\<close>,
  the slice \<open>s[:-k]\<close>, \<open>str.lower\<close> (on ASCII letters), \<open>str.replace\<close> and
  \<open>str.split(sep, 1)\<close>.
\<close>

definition startswith :: "string \<Rightarrow> string \<Rightarrow> bool" where
  "startswith s p = (take (length p) s = p)"

definition endswith :: "string \<Rightarrow> string \<Rightarrow> bool" where
  "endswith s p = (length p \<le> length s \<and> drop (length s - length p) s = p)"

fun py_in :: "string \<Rightarrow> string \<Rightarrow> bool" where
  "py_in sub [] = (sub = [])"
| "py_in sub (c # cs) = (startswith (c # cs) sub \<or> py_in sub cs)"

definition slice_to_neg :: "string \<Rightarrow> nat \<Rightarrow> string" where
  \<comment> \<open>\<open>s[:-k]\<close>; for \<open>k = 0\<close> Python reads \<open>s[:0]\<close>, the empty string.\<close>
  "slice_to_neg s k = (if k = 0 then [] else take (length s - k) s)"

definition lower_char :: "char \<Rightarrow> char" where
  \<comment> \<open>\<open>str.lower\<close> on one character: the 26 ASCII capitals map to their small letters.\<close>
  "lower_char c =
     (case map_of (zip ''ABCDEFGHIJKLMNOPQRSTUVWXYZ'' ''abcdefghijklmnopqrstuvwxyz'') c of
        Some d \<Rightarrow> d
      | None \<Rightarrow> c)"

definition lower :: "string \<Rightarrow> string" where
  "lower s = map lower_char s"

function py_replace :: "string \<Rightarrow> string \<Rightarrow> string \<Rightarrow> string" where
  \<comment> \<open>\<open>s.replace(old, new)\<close>: every non-overlapping occurrence, left to right.\<close>
  "py_replace old new s =
     (if old = [] then new @ concat (map (\<lambda>c. c # new) s)
      else if s = [] then []
      else if startswith s old then new @ py_replace old new (drop (length old) s)
      else hd s # py_replace old new (tl s))"
  by pat_completeness auto
termination
  by (relation "measure (\<lambda>(old, new, s). length s)") auto

declare py_replace.simps [simp del]

fun partition_first :: "string \<Rightarrow> string \<Rightarrow> (string \<times> string) option" where
  \<comment> \<open>The text before and after the leftmost occurrence of \<open>sep\<close>, if there is one.\<close>
  "partition_first sep [] = (if sep = [] then Some ([], []) else None)"
| "partition_first sep (c # cs) =
     (if startswith (c # cs) sep then Some ([], drop (length sep) (c # cs))
      else map_option (\<lambda>(a, b). (c # a, b)) (partition_first sep cs))"

definition split1 :: "string \<Rightarrow> string \<Rightarrow> string list" where
  \<comment> \<open>\<open>s.split(sep, 1)\<close> for a non-empty separator: at most one split, at the leftmost
      occurrence.\<close>
  "split1 sep s = (case partition_first sep s of None \<Rightarrow> [s] | Some (a, b) \<Rightarrow> [a, b])"




section \<open>Python exceptions\<close>

datatype exn = Exn string
  \<comment> \<open>a raised exception; the string is what \<open>str(e)\<close> gives\<close>


definition py_nth :: "'a list \<Rightarrow> nat \<Rightarrow> exn + 'a" where
  \<comment> \<open>\<open>xs[i]\<close> for \<open>i \<ge> 0\<close>: IndexError out of range.\<close>
  "py_nth xs i = (if i < length xs then Inr (xs ! i) else Inl (Exn ''list index out of range''))"

section \<open>Paths (posixpath)\<close>

definition rfind :: "char \<Rightarrow> string \<Rightarrow> int" where
  \<comment> \<open>\<open>s.rfind(c)\<close>: index of the last occurrence, \<open>-1\<close> if there is none.\<close>
  "rfind c s =
     (if c \<in> set s then int (length s) - 1 - int (length (takeWhile (\<lambda>x. x \<noteq> c) (rev s)))
      else - 1)"

definition basename :: "string \<Rightarrow> string" where
  \<comment> \<open>\<open>i = p.rfind('/') + 1; return p[i:]\<close>\<close>
  "basename p = drop (nat (rfind CHR ''/'' p + 1)) p"

definition rstrip_slash :: "string \<Rightarrow> string" where
  "rstrip_slash s = rev (dropWhile (\<lambda>c. c = CHR ''/'') (rev s))"

definition dirname :: "string \<Rightarrow> string" where
  \<comment> \<open>\<open>head = p[:i]; if head and head != '/' * len(head): head = head.rstrip('/')\<close>\<close>
  "dirname p =
     (let head = take (nat (rfind CHR ''/'' p + 1)) p
      in if head \<noteq> [] \<and> head \<noteq> replicate (length head) CHR ''/'' then rstrip_slash head
         else head)"

fun segments :: "string \<Rightarrow> string list" where
  \<comment> \<open>the segments of a path: \<open>p.split('/')\<close>\<close>
  "segments [] = [[]]"
| "segments (c # cs) =
     (if c = CHR ''/'' then [] # segments cs
      else (case segments cs of [] \<Rightarrow> [[c]] | s # ss \<Rightarrow> (c # s) # ss))"

definition path_join :: "string \<Rightarrow> string \<Rightarrow> string" where
  \<comment> \<open>\<open>os.path.join(a, b)\<close>\<close>
  "path_join a b =
     (if startswith b ''/'' then b
      else if a = [] \<or> endswith a ''/'' then a @ b
      else a @ ''/'' @ b)"

definition splitext_root :: "string \<Rightarrow> string" where
  \<comment> \<open>\<open>os.path.splitext(p)[0]\<close>: the part before the last dot, unless that dot is before
      the last separator or only dots come before it in the file name.\<close>
  "splitext_root p =
     (let sepIndex = rfind CHR ''/'' p; dotIndex = rfind CHR ''.'' p
      in if dotIndex > sepIndex
            \<and> list_ex (\<lambda>c. c \<noteq> CHR ''.'')
                 (take (nat (dotIndex - (sepIndex + 1))) (drop (nat (sepIndex + 1)) p))
         then take (nat dotIndex) p
         else p)"


section \<open>Font catalog: name cleaning\<close>

text \<open>
  \<^verbatim>\<open>
  for suffix in ['-Regular', '-Bold', 'Regular', 'Bold', 'Italic', '-Italic']:
      if font_name.endswith(suffix):
          font_name = font_name[:-len(suffix)]
          break
  \<close>
\<close>

definition style_suffixes :: "string list" where
  "style_suffixes = [''-Regular'', ''-Bold'', ''Regular'', ''Bold'', ''Italic'', ''-Italic'']"

fun strip_first_suffix :: "string list \<Rightarrow> string \<Rightarrow> string" where
  "strip_first_suffix [] font_name = font_name"
| "strip_first_suffix (suffix # rest) font_name =
     (if endswith font_name suffix then slice_to_neg font_name (length suffix)
      else strip_first_suffix rest font_name)"

definition clean_font_name :: "string \<Rightarrow> string" where
  "clean_font_name font_name = strip_first_suffix style_suffixes font_name"

section \<open>Font catalog: scan, save, load\<close>

text \<open>
  The file system the scan sees: which font directories exist and what \<open>os.walk\<close>
  yields below each (a list of \<open>(root, files)\<close> in traversal order). The cache file
  is absent, unreadable as the expected JSON object (\<open>json.load\<close> or one of the two
  key look-ups raises), or holds the two collections \<open>names\<close> and \<open>paths\<close>; a dict is an
  association list in insertion order with distinct keys.
\<close>

record fonts_fs =
  dir_exists :: "string \<Rightarrow> bool"
  walk :: "string \<Rightarrow> (string \<times> string list) list"

datatype cache_content = Corrupt | Cached "string list" "(string \<times> string) list"

record disk =
  cache_file :: "cache_content option"
  cache_writable :: bool

record catalog =
  available_fonts :: "string list"
  font_paths :: "(string \<times> string) list"

definition is_font_file :: "string \<Rightarrow> bool" where
  \<comment> \<open>\<open>file.lower().endswith(('.ttf', '.otf'))\<close>\<close>
  "is_font_file file = (endswith (lower file) ''.ttf'' \<or> endswith (lower file) ''.otf'')"

definition scan_file ::
  "string \<Rightarrow> string \<Rightarrow> (string \<times> string) list \<times> string list
     \<Rightarrow> (string \<times> string) list \<times> string list" where
  \<comment> \<open>the body of the innermost loop, on the accumulators \<open>(temp_paths, verified_fonts)\<close>\<close>
  "scan_file root file acc =
     (case acc of (temp_paths, verified_fonts) \<Rightarrow>
        if is_font_file file then
          (let font_name = clean_font_name (splitext_root file)
           in if font_name \<noteq> [] \<and> map_of temp_paths font_name = None
              then (temp_paths @ [(font_name, path_join root file)], verified_fonts @ [font_name])
              else (temp_paths, verified_fonts))
        else (temp_paths, verified_fonts))"

definition scan_walk ::
  "(string \<times> string list) list \<Rightarrow> (string \<times> string) list \<times> string list
     \<Rightarrow> (string \<times> string) list \<times> string list" where
  "scan_walk entries acc = fold (\<lambda>(root, files) a. fold (scan_file root) files a) entries acc"

definition scan_dirs ::
  "fonts_fs \<Rightarrow> string list \<Rightarrow> (string \<times> string) list \<times> string list
     \<Rightarrow> (string \<times> string) list \<times> string list" where
  "scan_dirs fs font_dirs acc =
     fold (\<lambda>font_dir a. if \<not> dir_exists fs font_dir then a else scan_walk (walk fs font_dir) a)
       font_dirs acc"

definition accept_entry ::
  "string \<times> string \<Rightarrow> (string \<times> string) list \<times> string list
     \<Rightarrow> (string \<times> string) list \<times> string list" where
  \<comment> \<open>what the loop body does with a font file once its cleaned name and its path are
      known: the entry \<open>e = (name, path)\<close> is kept if the name is not empty and not yet taken\<close>
  "accept_entry e acc =
     (case acc of (temp_paths, verified_fonts) \<Rightarrow>
        if fst e \<noteq> [] \<and> map_of temp_paths (fst e) = None
        then (temp_paths @ [e], verified_fonts @ [fst e])
        else (temp_paths, verified_fonts))"

definition load_cache :: "disk \<Rightarrow> (string list \<times> (string \<times> string) list) option" where
  \<comment> \<open>step 1: \<open>None\<close> when the cache file does not exist or reading it raises\<close>
  "load_cache d =
     (case cache_file d of
        None \<Rightarrow> None
      | Some Corrupt \<Rightarrow> None
      | Some (Cached names paths) \<Rightarrow> Some (names, paths))"

definition save_cache :: "catalog \<Rightarrow> disk \<Rightarrow> disk" where
  \<comment> \<open>step 3: a failed write is logged and ignored\<close>
  "save_cache c d =
     (if cache_writable d then d\<lparr>cache_file := Some (Cached (available_fonts c) (font_paths c))\<rparr>
      else d)"

definition scan_fonts_thread :: "fonts_fs \<Rightarrow> string list \<Rightarrow> catalog \<Rightarrow> disk \<Rightarrow> catalog \<times> disk" where
  \<comment> \<open>\<open>_scan_fonts_thread\<close>; \<open>font_dirs\<close> is the platform's list of font directories\<close>
  "scan_fonts_thread fs font_dirs c d =
     (case load_cache d of
        Some (names, paths) \<Rightarrow> (c\<lparr>available_fonts := names, font_paths := paths\<rparr>, d)
      | None \<Rightarrow>
          (case scan_dirs fs font_dirs ([], []) of (temp_paths, verified_fonts) \<Rightarrow>
             (let c' = c\<lparr>available_fonts := sort (remdups verified_fonts), font_paths := temp_paths\<rparr>
              in (c', save_cache c' d))))"

definition font_entries :: "fonts_fs \<Rightarrow> string list \<Rightarrow> (string \<times> string) list" where
  \<comment> \<open>The font files of the directories in traversal order, each with its cleaned name:
      what the scan iterates over, written as a comprehension.\<close>
  "font_entries fs font_dirs =
     concat (map (\<lambda>font_dir.
        if \<not> dir_exists fs font_dir then []
        else concat (map (\<lambda>(root, files).
               map (\<lambda>file. (clean_font_name (splitext_root file), path_join root file))
                 (filter is_font_file files))
             (walk fs font_dir)))
       font_dirs)"

section \<open>Font object cache\<close>

text \<open>
  The font library is a black box: \<open>ImageFont.truetype(path, size)\<close> returns a handle or
  raises, \<open>ImageFont.load_default()\<close> returns the built-in font, and \<open>textbbox\<close> measures a
  text with a font, an alignment and a line spacing (integers) or raises.
  \<open>draw_raises\<close> says whether a \<open>draw.text\<close> call raises.
\<close>

datatype colour = RGBA int int int int | Gray int

datatype 'font draw_call =
  DrawText (dc_xy: "int \<times> int") (dc_text: string) (dc_font: 'font) (dc_fill: colour)
    (dc_stroke_width: int) (dc_stroke_fill: "colour option") (dc_align: string) (dc_spacing: int)

datatype 'font image =
  Image (im_mode: string) (im_size: "int \<times> int") (im_background: colour)
    (im_draws: "'font draw_call list")
  \<comment> \<open>an image is what was done to it: \<open>Image.new(mode, size, background)\<close> and the text
      drawn on it since\<close>

record 'font pil =
  truetype :: "string \<Rightarrow> int \<Rightarrow> exn + 'font"
  load_default :: 'font
  textbbox :: "'font \<Rightarrow> string \<Rightarrow> string \<Rightarrow> int \<Rightarrow> exn + (int \<times> int \<times> int \<times> int)"
  draw_raises :: "'font draw_call \<Rightarrow> exn option"

record 'font app =
  current_size :: int
  text_input :: string
  text_align_var :: string
  text_position_var :: string
  padding_var :: int
  line_spacing_var :: int
  font_size_var :: int
  font_family_var :: string
  outline_color_rgb :: colour
  text_color_rgb :: colour
  outline_enabled :: bool
  outline_width_var :: int
  mask_layer_enabled :: bool
  vmat_enabled :: bool
  shader_var :: string
  fonts :: catalog
  font_obj_cache :: "((string \<times> int) \<times> 'font) list"
  preview_req_id :: int
  preview_image_ref :: "'font image option"
  preview_label :: "'font image option"

definition init_app :: "'font app" where
  \<comment> \<open>the state \<open>__init__\<close> sets up, before the font scan has finished\<close>
  "init_app =
     \<lparr>current_size = 512, text_input = ''SAMPLE TEXT'', text_align_var = ''Center'',
      text_position_var = ''Center'', padding_var = 20, line_spacing_var = 4,
      font_size_var = 50, font_family_var = ''calibri'',
      outline_color_rgb = RGBA 0 0 0 255, text_color_rgb = RGBA 255 255 255 255,
      outline_enabled = False, outline_width_var = 4, mask_layer_enabled = False,
      vmat_enabled = False, shader_var = ''csgo_static_overlay.vfx'',
      fonts = \<lparr>available_fonts = [], font_paths = []\<rparr>, font_obj_cache = [],
      preview_req_id = 0, preview_image_ref = None, preview_label = None\<rparr>"

definition rescan_clear :: "'font app \<Rightarrow> 'font app" where
  \<comment> \<open>\<open>rescan_fonts_action\<close>, its assignments: the catalog is emptied before the new scan
      starts; the font object cache is left as it is\<close>
  "rescan_clear st = st\<lparr>fonts := \<lparr>available_fonts = [], font_paths = []\<rparr>\<rparr>"

definition get_font_object :: "'font pil \<Rightarrow> 'font app \<Rightarrow> int \<Rightarrow> 'font \<times> 'font app" where
  "get_font_object lib st sz =
     (let font_name = font_family_var st; cache_key = (font_name, sz)
      in case map_of (font_obj_cache st) cache_key of
           Some font \<Rightarrow> (font, st)
         | None \<Rightarrow>
             (case map_of (font_paths (fonts st)) font_name of
                None \<Rightarrow> (load_default lib, st)
              | Some path \<Rightarrow>
                  (case truetype lib path sz of
                     Inl e \<Rightarrow> (load_default lib, st)
                   | Inr font \<Rightarrow>
                       (let cache = (if length (font_obj_cache st) > 50 then []
                                     else font_obj_cache st)
                        in (font, st\<lparr>font_obj_cache := cache @ [(cache_key, font)]\<rparr>)))))"

section \<open>Layout engine\<close>

definition draw_text :: "'font pil \<Rightarrow> 'font image \<Rightarrow> 'font draw_call \<Rightarrow> exn + 'font image" where
  \<comment> \<open>\<open>draw.text(...)\<close> on the image, or the exception it raises\<close>
  "draw_text lib img call =
     (case draw_raises lib call of
        Some e \<Rightarrow> Inl e
      | None \<Rightarrow> Inr (Image (im_mode img) (im_size img) (im_background img) (im_draws img @ [call])))"

definition create_text_image_pil ::
  "'font pil \<Rightarrow> 'font app \<Rightarrow> string \<Rightarrow> int \<Rightarrow> int \<Rightarrow> 'font option \<Rightarrow> string \<Rightarrow> string \<Rightarrow> int \<Rightarrow> int
     \<Rightarrow> (exn + 'font image) \<times> 'font app" where
  "create_text_image_pil lib st text sz font_size font_obj alignment position padding line_spacing =
     (case (case font_obj of None \<Rightarrow> get_font_object lib st font_size | Some f \<Rightarrow> (f, st)) of
        (font_obj, st) \<Rightarrow>
          (let img = Image ''RGBA'' (sz, sz) (RGBA 0 0 0 0) [];
               align_lower = lower alignment
           in case textbbox lib font_obj text align_lower line_spacing of
                Inl e \<Rightarrow> (Inl e, st)
              | Inr (left, top', right, bottom) \<Rightarrow>
                  (let w = right - left;
                       h = bottom - top';
                       pos = lower position;
                       x = (if py_in ''left'' pos then padding - left
                            else if py_in ''right'' pos then sz - w - left - padding
                            else (sz - w) div 2 - left);
                       y = (if py_in ''top'' pos then padding - top'
                            else if py_in ''bottom'' pos then sz - h - top' - padding
                            else (sz - h) div 2 - top')
                   in if outline_enabled st then
                        (let o_width = outline_width_var st
                         in (draw_text lib img
                               (DrawText (x, y) text font_obj (text_color_rgb st) o_width
                                  (Some (outline_color_rgb st)) align_lower line_spacing), st))
                      else
                        (draw_text lib img
                           (DrawText (x, y) text font_obj (text_color_rgb st) 0 None
                              align_lower line_spacing), st))))"

definition create_mask_image ::
  "'font pil \<Rightarrow> 'font app \<Rightarrow> string \<Rightarrow> int \<Rightarrow> 'font \<Rightarrow> string \<Rightarrow> string \<Rightarrow> int \<Rightarrow> int
     \<Rightarrow> exn + 'font image" where
  "create_mask_image lib st text sz font_obj alignment position padding line_spacing =
     (let img = Image ''L'' (sz, sz) (Gray 0) [];
          align_lower = lower alignment
      in case textbbox lib font_obj text align_lower line_spacing of
           Inl e \<Rightarrow> Inl e
         | Inr (left, top', right, bottom) \<Rightarrow>
             (let w = right - left;
                  h = bottom - top';
                  pos = lower position;
                  x = (if py_in ''left'' pos then padding - left
                       else if py_in ''right'' pos then sz - w - left - padding
                       else (sz - w) div 2 - left);
                  y = (if py_in ''top'' pos then padding - top'
                       else if py_in ''bottom'' pos then sz - h - top' - padding
                       else (sz - h) div 2 - top');
                  stroke_w = (if outline_enabled st then outline_width_var st else 0)
              in draw_text lib img
                   (DrawText (x, y) text font_obj (Gray 255) stroke_w (Some (Gray 255))
                      align_lower line_spacing)))"

section \<open>Material descriptor and texture paths\<close>

definition get_relative_texture_path :: "string \<Rightarrow> exn + string" where
  "get_relative_texture_path absolute_path =
     (let normalized = py_replace [CHR 0x5C] ''/'' absolute_path
      in if py_in ''/materials/'' normalized then
           (case py_nth (split1 ''/materials/'' normalized) 1 of
              Inl e \<Rightarrow> Inl e
            | Inr split_part \<Rightarrow> Inr (''materials/'' @ split_part))
         else
           (let parent = basename (dirname normalized);
                filename = basename normalized
            in Inr (''materials/'' @ parent @ ''/'' @ filename)))"


section \<open>Preview scheduler\<close>

text \<open>
  Reading the widgets in \<open>update_preview_thread_launcher\<close> happens inside a \<open>try\<close> whose
  handler returns: the reads either raise (before or after the font look-up) or give
  the panel's width and height. The checkerboard compositing and the scaling to the
  panel are not part of the model: a finished render is its text layer.
\<close>

datatype widgets = WidgetsRaiseEarly | WidgetsRaiseLate | Panel int int

datatype 'font render_job =
  RenderJob (j_size: int) (j_text: string) (j_font_size: int) (j_font_obj: 'font)
    (j_alignment: string) (j_position: string) (j_padding: int) (j_line_spacing: int)
    (j_panel_w: int) (j_panel_h: int) (j_req_id: int)

definition update_preview_thread_launcher ::
  "'font pil \<Rightarrow> widgets \<Rightarrow> 'font app \<Rightarrow> 'font render_job option \<times> 'font app" where
  "update_preview_thread_launcher lib wd st0 =
     (let st = st0\<lparr>preview_req_id := preview_req_id st0 + 1\<rparr>;
          req_id = preview_req_id st
      in case wd of
           WidgetsRaiseEarly \<Rightarrow> (None, st)
         | WidgetsRaiseLate \<Rightarrow> (None, snd (get_font_object lib st (font_size_var st)))
         | Panel width height \<Rightarrow>
             (let sz = current_size st;
                  text = (if text_input st = [] then '' '' else text_input st);
                  font_size = font_size_var st
              in case get_font_object lib st font_size of (font_obj, st) \<Rightarrow>
                   (let alignment = text_align_var st;
                        position = text_position_var st;
                        padding = padding_var st;
                        line_spacing = line_spacing_var st;
                        panel_w = (if width < 200 then 500 else width);
                        panel_h = (if height - 60 < 200 then 500 else height - 60)
                    in (Some (RenderJob sz text font_size font_obj alignment position padding
                                line_spacing panel_w panel_h req_id), st))))"

definition threaded_render :: "'font pil \<Rightarrow> 'font app \<Rightarrow> 'font render_job \<Rightarrow> exn + 'font image \<times> int" where
  \<comment> \<open>\<open>_threaded_render\<close>: the image and the request id handed to \<open>_apply_preview\<close>, or the
      exception that is logged\<close>
  "threaded_render lib st job =
     (case fst (create_text_image_pil lib st (j_text job) (j_size job) (j_font_size job)
                  (Some (j_font_obj job)) (j_alignment job) (j_position job) (j_padding job)
                  (j_line_spacing job)) of
        Inl e \<Rightarrow> Inl e
      | Inr text_layer \<Rightarrow> Inr (text_layer, j_req_id job))"

datatype tk_outcome = TkOk | CTkImageRaises | ConfigureRaises

definition apply_preview :: "tk_outcome \<Rightarrow> 'font app \<Rightarrow> 'font image \<Rightarrow> int \<Rightarrow> 'font app \<times> bool" where
  \<comment> \<open>\<open>_apply_preview\<close>; the flag says whether the image reached the preview label\<close>
  "apply_preview tk st pil_image req_id =
     (if req_id \<noteq> preview_req_id st then (st, False)
      else case tk of
             CTkImageRaises \<Rightarrow> (st, False)
           | ConfigureRaises \<Rightarrow> (st\<lparr>preview_image_ref := Some pil_image\<rparr>, False)
           | TkOk \<Rightarrow>
               (st\<lparr>preview_image_ref := Some pil_image, preview_label := Some pil_image\<rparr>, True))"

text \<open>
  The scheduler around these functions: the single-worker executor runs the submitted
  jobs in order, each finished render is queued for the controlling thread
  (\<open>root.after(0, ...)\<close>), and the controlling thread runs the queued calls in order.
  \<open>applied_ids\<close> records, oldest first, the request ids whose image reached the label.
\<close>

record 'font sched =
  app_state :: "'font app"
  executor_queue :: "'font render_job list"
  after_queue :: "('font image \<times> int) list"
  applied_ids :: "int list"

datatype event = Launch widgets | SetText string | WorkerRun | MainApply tk_outcome

fun step :: "'font pil \<Rightarrow> event \<Rightarrow> 'font sched \<Rightarrow> 'font sched" where
  "step lib (Launch wd) s =
     (case update_preview_thread_launcher lib wd (app_state s) of
        (None, st) \<Rightarrow> s\<lparr>app_state := st\<rparr>
      | (Some job, st) \<Rightarrow> s\<lparr>app_state := st, executor_queue := executor_queue s @ [job]\<rparr>)"
| "step lib (SetText t) s = s\<lparr>app_state := (app_state s)\<lparr>text_input := t\<rparr>\<rparr>"
| "step lib WorkerRun s =
     (case executor_queue s of
        [] \<Rightarrow> s
      | job # rest \<Rightarrow>
          (case threaded_render lib (app_state s) job of
             Inl e \<Rightarrow> s\<lparr>executor_queue := rest\<rparr>
           | Inr res \<Rightarrow> s\<lparr>executor_queue := rest, after_queue := after_queue s @ [res]\<rparr>))"
| "step lib (MainApply tk) s =
     (case after_queue s of
        [] \<Rightarrow> s
      | (pil_image, req_id) # rest \<Rightarrow>
          (case apply_preview tk (app_state s) pil_image req_id of
             (st, shown) \<Rightarrow>
               s\<lparr>app_state := st, after_queue := rest,
                 applied_ids := (if shown then applied_ids s @ [req_id] else applied_ids s)\<rparr>))"

definition run :: "'font pil \<Rightarrow> event list \<Rightarrow> 'font sched \<Rightarrow> 'font sched" where
  "run lib evs s = fold (step lib) evs s"

definition start :: "'font app \<Rightarrow> 'font sched" where
  "start st = \<lparr>app_state = st, executor_queue = [], after_queue = [], applied_ids = []\<rparr>"

text \<open>
  The invariant of the scheduler, on the counter \<open>c\<close>, the request ids of the renders
  still queued (\<open>tags\<close>) and the ids applied so far: no queued id is above the
  counter, the queued ids are distinct, an applied id is never queued again, and the
  applied ids increase.
\<close>

definition sched_inv :: "int \<Rightarrow> int list \<Rightarrow> int list \<Rightarrow> bool" where
  "sched_inv c tags applied =
     ((\<forall>t \<in> set tags. t \<le> c) \<and> distinct tags
      \<and> (\<forall>a \<in> set applied. a \<le> c \<and> a \<notin> set tags) \<and> sorted_wrt (<) applied)"

definition tags :: "'font sched \<Rightarrow> int list" where
  "tags s = map j_req_id (executor_queue s) @ map snd (after_queue s)"

definition sched_ok :: "'font sched \<Rightarrow> bool" where
  "sched_ok s = sched_inv (preview_req_id (app_state s)) (tags s) (applied_ids s)"

section \<open>Export pipeline\<close>
















record 'font export_data =
  d_size :: int
  d_text :: "string option"
  d_font_size :: int
  d_font_obj :: 'font
  d_alignment :: string
  d_position :: string
  d_padding :: int
  d_line_spacing :: int
  d_mask :: bool
  d_vmat :: bool
  d_shader :: string

definition gather_and_save :: "'font pil \<Rightarrow> 'font app \<Rightarrow> 'font export_data \<times> 'font app" where
  \<comment> \<open>\<open>_gather_and_save\<close>: the data handed to \<open>_perform_save\<close>\<close>
  "gather_and_save lib st =
     (case get_font_object lib st (font_size_var st) of (font_obj, st') \<Rightarrow>
        (\<lparr>d_size = current_size st, d_text = Some (text_input st),
          d_font_size = font_size_var st, d_font_obj = font_obj,
          d_alignment = text_align_var st, d_position = text_position_var st,
          d_padding = padding_var st, d_line_spacing = line_spacing_var st,
          d_mask = mask_layer_enabled st, d_vmat = vmat_enabled st,
          d_shader = shader_var st\<rparr>, st'))"








section \<open>Concrete inputs for the examples\<close>

definition example_pil :: "string pil" where
  \<comment> \<open>a font library for the examples: a font handle is the path it was loaded from,
      every glyph is 10 wide and 12 high, the box starts at \<open>(2, 3)\<close>, nothing raises\<close>
  "example_pil =
     \<lparr>truetype = (\<lambda>path sz. Inr path), load_default = ''default'',
      textbbox = (\<lambda>font text align spacing. Inr (2, 3, 2 + 10 * int (length text), 15)),
      draw_raises = (\<lambda>call. None)\<rparr>"

definition arial_app :: "string app" where
  \<comment> \<open>after a scan that found one font, with that font selected\<close>
  "arial_app =
     init_app\<lparr>font_family_var := ''Arial'',
       fonts := \<lparr>available_fonts = [''Arial''], font_paths = [(''Arial'', ''/f/Arial.ttf'')]\<rparr>\<rparr>"



definition empty_catalog :: catalog where
  "empty_catalog = \<lparr>available_fonts = [], font_paths = []\<rparr>"

definition fresh_disk :: disk where
  \<comment> \<open>no cache file yet, and it can be written\<close>
  "fresh_disk = \<lparr>cache_file = None, cache_writable = True\<rparr>"

definition example_fs :: fonts_fs where
  \<comment> \<open>one font directory, with a font file whose whole name is a style suffix\<close>
  "example_fs =
     \<lparr>dir_exists = (\<lambda>dir. dir = ''/f''),
      walk = (\<lambda>dir. if dir = ''/f'' then [(''/f'', [''Bold.ttf'', ''Arial.ttf''])] else [])\<rparr>"

definition distinct_fs :: fonts_fs where
  \<comment> \<open>one font directory, two font files with different cleaned names and a text file\<close>
  "distinct_fs =
     \<lparr>dir_exists = (\<lambda>dir. dir = ''/f''),
      walk = (\<lambda>dir. if dir = ''/f''
                     then [(''/f'', [''Zed.otf'', ''notes.txt'']), (''/f/a'', [''Arial-Bold.TTF''])]
                     else [])\<rparr>"

section \<open>Facts about the string operations\<close>

lemma endswith_append: "endswith s p \<Longrightarrow> s = take (length s - length p) s @ p"
  unfolding endswith_def by (metis append_take_drop_id)

lemma endswith_appendI: "endswith (xs @ p) p"
  unfolding endswith_def by simp

lemma strip_first_suffix_none:
  "\<forall>s \<in> set sufs. \<not> endswith name s \<Longrightarrow> strip_first_suffix sufs name = name"
  by (induction sufs) auto

lemma strip_first_suffix_first:
  assumes "\<forall>p \<in> set pre. \<not> endswith name p" and "endswith name s" and "s \<noteq> []"
  shows "name = strip_first_suffix (pre @ s # post) name @ s"
  using assms
proof (induction pre)
  case Nil
  then show ?case
    using endswith_append [of name s] by (simp add: slice_to_neg_def)
next
  case (Cons p pre)
  then show ?case by simp
qed

lemma strip_first_suffix_cases:
  assumes "[] \<notin> set sufs"
  shows "strip_first_suffix sufs name = name \<or>
         (\<exists>s \<in> set sufs. endswith name s \<and> name = strip_first_suffix sufs name @ s)"
  using assms
proof (induction sufs)
  case Nil
  then show ?case by simp
next
  case (Cons a sufs)
  show ?case
  proof (cases "endswith name a")
    case True
    with Cons.prems have "name = strip_first_suffix (a # sufs) name @ a"
      using endswith_append [of name a] by (auto simp: slice_to_neg_def)
    with True show ?thesis by auto
  next
    case False
    with Cons show ?thesis by auto
  qed
qed

lemma strip_first_suffix_some:
  assumes "[] \<notin> set sufs" and "\<exists>t \<in> set sufs. endswith name t"
  shows "\<exists>s \<in> set sufs. endswith name s \<and> name = strip_first_suffix sufs name @ s"
  using assms
proof (induction sufs)
  case Nil
  then show ?case by simp
next
  case (Cons a sufs)
  show ?case
  proof (cases "endswith name a")
    case True
    with Cons.prems have "name = strip_first_suffix (a # sufs) name @ a"
      using endswith_append [of name a] by (auto simp: slice_to_neg_def)
    with True show ?thesis by auto
  next
    case False
    with Cons show ?thesis by auto
  qed
qed

lemma style_suffixes_nonempty: "[] \<notin> set style_suffixes"
  by (simp add: style_suffixes_def)

section \<open>Facts about the font object cache and the layout\<close>

lemma get_font_object_state:
  "snd (get_font_object lib st sz) = st \<or>
   (\<exists>c. snd (get_font_object lib st sz) = st\<lparr>font_obj_cache := c\<rparr>)"
  unfolding get_font_object_def Let_def
  by (simp split: option.split sum.split) blast






section \<open>Facts about the preview scheduler\<close>

lemma get_font_object_req_id:
  "preview_req_id (snd (get_font_object lib st sz)) = preview_req_id st"
  using get_font_object_state [of lib st sz] by auto

lemma launcher_counter:
  "preview_req_id (snd (update_preview_thread_launcher lib wd st)) = preview_req_id st + 1"
proof (cases wd)
  case WidgetsRaiseEarly
  then show ?thesis by (simp add: update_preview_thread_launcher_def)
next
  case WidgetsRaiseLate
  then show ?thesis
    by (simp add: update_preview_thread_launcher_def Let_def get_font_object_req_id)
next
  case (Panel width height)
  have "preview_req_id (snd (get_font_object lib
          (st\<lparr>preview_req_id := preview_req_id st + 1\<rparr>) (font_size_var st)))
        = preview_req_id st + 1"
    by (simp add: get_font_object_req_id)
  with Panel show ?thesis
    by (auto simp: update_preview_thread_launcher_def Let_def split: prod.splits)
qed

lemma launcher_tag:
  "fst (update_preview_thread_launcher lib wd st) = Some job
   \<Longrightarrow> j_req_id job = preview_req_id st + 1"
  by (cases wd)
     (auto simp: update_preview_thread_launcher_def Let_def split: prod.splits)

lemma threaded_render_tag:
  "threaded_render lib st job = Inr (img, rid) \<Longrightarrow> rid = j_req_id job"
  by (auto simp: threaded_render_def split: sum.splits)

lemma apply_preview_counter:
  "preview_req_id (fst (apply_preview tk st img rid)) = preview_req_id st"
  by (cases tk) (simp_all add: apply_preview_def)

lemma apply_preview_shown:
  "snd (apply_preview tk st img rid) \<Longrightarrow> rid = preview_req_id st"
  by (cases tk) (simp_all add: apply_preview_def split: if_splits)

lemma sched_inv_submit:
  assumes "sched_inv c (xs @ ys) ap"
  shows "sched_inv (c + 1) (xs @ (c + 1) # ys) ap"
proof -
  from assms have le: "\<forall>t \<in> set xs \<union> set ys. t \<le> c"
    and d: "distinct (xs @ ys)"
    and ap: "\<forall>a \<in> set ap. a \<le> c \<and> a \<notin> set xs \<union> set ys"
    and so: "sorted_wrt (<) ap"
    unfolding sched_inv_def by auto
  from le have new: "c + 1 \<notin> set xs \<union> set ys" by force
  from ap have new_ap: "c + 1 \<notin> set ap" by force
  from le have le': "\<forall>t \<in> set xs \<union> set ys. t \<le> c + 1" by force
  from ap have ap': "\<forall>a \<in> set ap. a \<le> c + 1" by force
  show ?thesis
    unfolding sched_inv_def using new new_ap le' ap' d ap so by auto
qed

lemma sched_inv_tick: "sched_inv c ts ap \<Longrightarrow> sched_inv (c + 1) ts ap"
  unfolding sched_inv_def by fastforce

lemma sched_inv_drop: "sched_inv c (xs @ t # ys) ap \<Longrightarrow> sched_inv c (xs @ ys) ap"
  unfolding sched_inv_def by auto

lemma sched_inv_move: "sched_inv c (t # xs @ ys) ap \<Longrightarrow> sched_inv c (xs @ ys @ [t]) ap"
  unfolding sched_inv_def by auto

lemma sched_inv_apply: "sched_inv c (xs @ c # ys) ap \<Longrightarrow> sched_inv c (xs @ ys) (ap @ [c])"
  unfolding sched_inv_def by (fastforce simp: sorted_wrt_append)


lemma sched_ok_start: "sched_ok (start st)"
  by (simp add: sched_ok_def sched_inv_def start_def tags_def)

lemma sched_ok_launch:
  assumes "sched_ok s"
  shows "sched_ok (step lib (Launch wd) s)"
proof -
  obtain j st where l: "update_preview_thread_launcher lib wd (app_state s) = (j, st)"
    by (cases "update_preview_thread_launcher lib wd (app_state s)")
  have c: "preview_req_id st = preview_req_id (app_state s) + 1"
    using launcher_counter [of lib wd "app_state s"] l by simp
  show ?thesis
  proof (cases j)
    case None
    with l c sched_inv_tick [OF assms [unfolded sched_ok_def]] show ?thesis
      by (simp add: sched_ok_def tags_def)
  next
    case (Some job)
    then have "j_req_id job = preview_req_id (app_state s) + 1"
      using launcher_tag [of lib wd "app_state s" job] l by simp
    with l c Some sched_inv_submit [OF assms [unfolded sched_ok_def tags_def]] show ?thesis
      by (simp add: sched_ok_def tags_def)
  qed
qed

lemma sched_ok_worker:
  assumes "sched_ok s"
  shows "sched_ok (step lib WorkerRun s)"
proof (cases "executor_queue s")
  case Nil
  with assms show ?thesis by simp
next
  case (Cons job rest)
  with assms have inv: "sched_inv (preview_req_id (app_state s))
      (j_req_id job # map j_req_id rest @ map snd (after_queue s)) (applied_ids s)"
    by (simp add: sched_ok_def tags_def)
  show ?thesis
  proof (cases "threaded_render lib (app_state s) job")
    case (Inl e)
    with Cons sched_inv_drop [of _ "[]", simplified, OF inv] show ?thesis
      by (simp add: sched_ok_def tags_def)
  next
    case (Inr res)
    obtain img rid where res: "res = (img, rid)" by (cases res)
    with Inr have "rid = j_req_id job" by (auto dest: threaded_render_tag)
    with Cons Inr res sched_inv_move [OF inv] show ?thesis
      by (simp add: sched_ok_def tags_def)
  qed
qed

lemma sched_ok_apply:
  assumes "sched_ok s"
  shows "sched_ok (step lib (MainApply tk) s)"
proof (cases "after_queue s")
  case Nil
  with assms show ?thesis by simp
next
  case (Cons r rest)
  obtain img rid where r: "r = (img, rid)" by (cases r)
  with Cons assms have inv: "sched_inv (preview_req_id (app_state s))
      (map j_req_id (executor_queue s) @ rid # map snd rest) (applied_ids s)"
    by (simp add: sched_ok_def tags_def)
  obtain st shown where a: "apply_preview tk (app_state s) img rid = (st, shown)"
    by (cases "apply_preview tk (app_state s) img rid")
  have c: "preview_req_id st = preview_req_id (app_state s)"
    using apply_preview_counter [of tk "app_state s" img rid] a by simp
  show ?thesis
  proof (cases shown)
    case False
    with Cons r a c sched_inv_drop [OF inv] show ?thesis
      by (simp add: sched_ok_def tags_def)
  next
    case True
    then have rid: "rid = preview_req_id (app_state s)"
      using apply_preview_shown [of tk "app_state s" img rid] a by simp
    with Cons r a c True sched_inv_apply [OF inv [unfolded rid]] show ?thesis
      by (simp add: sched_ok_def tags_def)
  qed
qed

lemma sched_ok_step: "sched_ok s \<Longrightarrow> sched_ok (step lib ev s)"
proof (cases ev)
  case (SetText t)
  assume "sched_ok s"
  with SetText show ?thesis by (simp add: sched_ok_def tags_def)
qed (simp_all only: sched_ok_launch sched_ok_worker sched_ok_apply)

lemma sched_ok_run: "sched_ok s \<Longrightarrow> sched_ok (run lib evs s)"
  unfolding run_def by (induction evs arbitrary: s) (simp_all add: sched_ok_step)

section \<open>Facts about substrings, splitting and paths\<close>

lemma startswith_iff: "startswith s p \<longleftrightarrow> (\<exists>post. s = p @ post)"
  unfolding startswith_def
  by (metis append_eq_conv_conj append_take_drop_id)

lemma py_in_iff: "py_in sub s \<longleftrightarrow> (\<exists>pre post. s = pre @ sub @ post)"
proof (induction s)
  case Nil
  then show ?case by auto
next
  case (Cons c cs)
  show ?case
  proof
    assume "py_in sub (c # cs)"
    then consider "startswith (c # cs) sub" | "py_in sub cs" by auto
    then show "\<exists>pre post. c # cs = pre @ sub @ post"
    proof cases
      case 1
      then obtain post where "c # cs = sub @ post" by (auto simp: startswith_iff)
      then have "c # cs = [] @ sub @ post" by simp
      then show ?thesis by blast
    next
      case 2
      with Cons.IH obtain pre post where "cs = pre @ sub @ post" by auto
      then have "c # cs = (c # pre) @ sub @ post" by simp
      then show ?thesis by blast
    qed
  next
    assume "\<exists>pre post. c # cs = pre @ sub @ post"
    then obtain pre post where eq: "c # cs = pre @ sub @ post" by auto
    show "py_in sub (c # cs)"
    proof (cases pre)
      case Nil
      with eq have "startswith (c # cs) sub" by (auto simp: startswith_iff)
      then show ?thesis by simp
    next
      case (Cons d pre')
      with eq have "cs = pre' @ sub @ post" by simp
      with Cons.IH have "py_in sub cs" by blast
      then show ?thesis by simp
    qed
  qed
qed

lemma py_in_length: "py_in sub s \<Longrightarrow> length sub \<le> length s"
  by (auto simp: py_in_iff)

lemma startswith_extend:
  "startswith x sep \<Longrightarrow> startswith (x @ rest) sep"
  by (auto simp: startswith_iff)

lemma partition_first_sound:
  assumes "sep \<noteq> []" and "partition_first sep s = Some (a, b)"
  shows "s = a @ sep @ b \<and> \<not> py_in sep (a @ butlast sep)"
  using assms(2)
proof (induction s arbitrary: a)
  case Nil
  with assms(1) show ?case by simp
next
  case (Cons c cs)
  show ?case
  proof (cases "startswith (c # cs) sep")
    case True
    with Cons.prems have a: "a = []" and b: "b = drop (length sep) (c # cs)" by auto
    from True have "c # cs = sep @ b" unfolding b startswith_def
      by (metis append_take_drop_id)
    moreover have "\<not> py_in sep (butlast sep)"
    proof
      assume "py_in sep (butlast sep)"
      then have "length sep \<le> length (butlast sep)" by (rule py_in_length)
      moreover have "length (butlast sep) < length sep"
        using assms(1) by (cases sep rule: rev_cases) simp_all
      ultimately show False by linarith
    qed
    ultimately show ?thesis using a by simp
  next
    case False
    with Cons.prems obtain a' where rec: "partition_first sep cs = Some (a', b)"
      and a: "a = c # a'"
      by (auto split: option.splits)
    from Cons.IH [OF rec] have eq: "cs = a' @ sep @ b" and nin: "\<not> py_in sep (a' @ butlast sep)"
      by auto
    have "\<not> startswith (c # a' @ butlast sep) sep"
    proof
      assume "startswith (c # a' @ butlast sep) sep"
      then have "startswith ((c # a' @ butlast sep) @ [last sep] @ b) sep"
        by (rule startswith_extend)
      moreover have "(c # a' @ butlast sep) @ [last sep] @ b = c # cs"
        using eq assms(1) by simp
      ultimately show False using False by simp
    qed
    with nin eq a show ?thesis by simp
  qed
qed

lemma partition_first_complete:
  "py_in sep s \<Longrightarrow> \<exists>a b. partition_first sep s = Some (a, b)"
  by (induction s) (auto split: if_splits)

lemma py_replace_single:
  "py_replace [c] [d] s = map (\<lambda>x. if x = c then d else x) s"
proof (induction s)
  case Nil
  then show ?case by (subst py_replace.simps) simp
next
  case (Cons x xs)
  then show ?case by (subst py_replace.simps) (simp add: startswith_def)
qed

lemma rfind_last:
  assumes "c \<notin> set ys"
  shows "rfind c (xs @ c # ys) = int (length xs)"
proof -
  have "takeWhile (\<lambda>x. x \<noteq> c) (rev ys @ c # rev xs) = rev ys"
    using assms by (subst takeWhile_append2) auto
  then show ?thesis by (simp add: rfind_def)
qed

lemma nat_int_Suc: "nat (int n + 1) = Suc n"
  by simp

lemma rfind_none: "c \<notin> set s \<Longrightarrow> rfind c s = - 1"
  by (simp add: rfind_def)

lemma basename_split:
  "CHR ''/'' \<notin> set fn \<Longrightarrow> basename (d @ CHR ''/'' # fn) = fn"
  by (simp add: basename_def rfind_last nat_int_Suc)

lemma dirname_split:
  assumes "CHR ''/'' \<notin> set fn" and "d \<noteq> []" and "last d \<noteq> CHR ''/''"
  shows "dirname (d @ CHR ''/'' # fn) = d"
proof -
  have head: "take (nat (rfind CHR ''/'' (d @ CHR ''/'' # fn) + 1)) (d @ CHR ''/'' # fn) = d @ ''/''"
    using assms(1) by (simp add: rfind_last nat_int_Suc)
  have "last d \<in> set d" using assms(2) by simp
  then have ne: "d @ ''/'' \<noteq> replicate (length (d @ ''/'')) CHR ''/''"
    using assms(3)
    by (metis Un_iff in_set_replicate set_append)
  have "rstrip_slash (d @ ''/'') = d"
    using assms(2,3) by (cases d rule: rev_cases) (simp_all add: rstrip_slash_def)
  with head ne show ?thesis by (simp add: dirname_def Let_def)
qed


lemma segments_nonempty: "segments s \<noteq> []"
  by (induction s) (auto split: list.splits)

lemma startswith_Cons:
  "startswith (c # cs) (x # p) \<longleftrightarrow> c = x \<and> startswith cs p"
  by (auto simp: startswith_def)

lemma startswith_Nil2: "startswith [] p \<longleftrightarrow> p = []"
  by (auto simp: startswith_def)

lemma startswith_Nil: "startswith s []"
  by (simp add: startswith_def)

lemma first_segment:
  "CHR ''/'' \<notin> set m \<Longrightarrow>
   startswith s (m @ ''/'') \<longleftrightarrow> hd (segments s) = m \<and> tl (segments s) \<noteq> []"
proof (induction s arbitrary: m)
  case Nil
  then show ?case by (simp add: startswith_Nil2)
next
  case (Cons c cs)
  obtain s0 ss where seg: "segments cs = s0 # ss"
    using segments_nonempty [of cs] by (cases "segments cs") auto
  show ?case
  proof (cases m)
    case Nil
    then show ?thesis by (auto simp: startswith_Cons startswith_Nil seg)
  next
    case (Cons x m')
    with Cons.prems have x: "x \<noteq> CHR ''/''" and m': "CHR ''/'' \<notin> set m'" by auto
    from Cons.IH [OF m'] seg
    have "startswith cs (m' @ ''/'') \<longleftrightarrow> s0 = m' \<and> ss \<noteq> []" by simp
    with x Cons show ?thesis by (auto simp: startswith_Cons seg)
  qed
qed

lemma inner_segment:
  "CHR ''/'' \<notin> set m \<Longrightarrow>
   m \<in> set (butlast (tl (segments s))) \<longleftrightarrow> py_in (''/'' @ m @ ''/'') s"
proof (induction s)
  case Nil
  then show ?case by simp
next
  case (Cons c cs)
  obtain s0 ss where seg: "segments cs = s0 # ss"
    using segments_nonempty [of cs] by (cases "segments cs") auto
  show ?case
  proof (cases "c = CHR ''/''")
    case True
    have "m \<in> set (butlast (s0 # ss)) \<longleftrightarrow> (s0 = m \<and> ss \<noteq> []) \<or> m \<in> set (butlast ss)"
      by auto
    also have "\<dots> \<longleftrightarrow> startswith cs (m @ ''/'') \<or> py_in (''/'' @ m @ ''/'') cs"
      using first_segment [OF Cons.prems, of cs] Cons.IH [OF Cons.prems] seg by simp
    finally show ?thesis using True by (simp add: seg startswith_Cons)
  next
    case False
    then show ?thesis
      using Cons.IH [OF Cons.prems] by (simp add: seg startswith_Cons)
  qed
qed

lemma get_relative_texture_path_found:
  assumes "py_in ''/materials/'' (py_replace [CHR 0x5C] ''/'' p)"
  shows "\<exists>pre post. py_replace [CHR 0x5C] ''/'' p = pre @ ''/materials/'' @ post
           \<and> \<not> py_in ''/materials/'' (pre @ ''/materials'')
           \<and> get_relative_texture_path p = Inr (''materials/'' @ post)"
proof -
  let ?n = "py_replace [CHR 0x5C] ''/'' p"
  from partition_first_complete [OF assms]
  obtain a b where pf: "partition_first ''/materials/'' ?n = Some (a, b)" by blast
  have ne: "''/materials/'' \<noteq> []" by simp
  from partition_first_sound [OF ne pf]
  have eq: "?n = a @ ''/materials/'' @ b" and left: "\<not> py_in ''/materials/'' (a @ ''/materials'')"
    by simp_all
  have "get_relative_texture_path p = Inr (''materials/'' @ b)"
    using assms pf by (simp add: get_relative_texture_path_def Let_def split1_def py_nth_def)
  with eq left show ?thesis by blast
qed

lemma get_relative_texture_path_fallback:
  assumes "\<not> py_in ''/materials/'' (py_replace [CHR 0x5C] ''/'' p)"
  shows "get_relative_texture_path p
         = Inr (''materials/'' @ basename (dirname (py_replace [CHR 0x5C] ''/'' p)) @ ''/''
                 @ basename (py_replace [CHR 0x5C] ''/'' p))"
  using assms by (simp add: get_relative_texture_path_def Let_def)

lemma parent_and_filename:
  assumes "n = d @ ''/'' @ parent @ ''/'' @ filename"
    and "CHR ''/'' \<notin> set parent" and "CHR ''/'' \<notin> set filename" and "parent \<noteq> []"
  shows "basename (dirname n) = parent \<and> basename n = filename"
proof -
  have n: "n = (d @ ''/'' @ parent) @ CHR ''/'' # filename" using assms(1) by simp
  have "last (d @ ''/'' @ parent) = last parent" using assms(4) by simp
  moreover have "last parent \<in> set parent" using assms(4) by simp
  ultimately have l: "last (d @ ''/'' @ parent) \<noteq> CHR ''/''" using assms(2) by metis
  have dn: "dirname n = d @ ''/'' @ parent"
    unfolding n using assms(3) l by (intro dirname_split) simp_all
  have "basename (d @ CHR ''/'' # parent) = parent"
    using assms(2) by (rule basename_split)
  then have "basename (dirname n) = parent" unfolding dn by simp
  moreover have "basename n = filename"
    unfolding n using assms(3) by (rule basename_split)
  ultimately show ?thesis by simp
qed

section \<open>Facts about the export pipeline\<close>

































section \<open>Facts about the font scan\<close>

lemma scan_files_entries:
  "fold (scan_file root) files acc
   = fold accept_entry
       (map (\<lambda>file. (clean_font_name (splitext_root file), path_join root file))
          (filter is_font_file files)) acc"
  by (induction files arbitrary: acc)
     (auto simp: scan_file_def accept_entry_def Let_def split: prod.splits)

lemma scan_walk_entries:
  "scan_walk entries acc
   = fold accept_entry
       (concat (map (\<lambda>(root, files).
          map (\<lambda>file. (clean_font_name (splitext_root file), path_join root file))
            (filter is_font_file files)) entries)) acc"
  unfolding scan_walk_def
  by (induction entries arbitrary: acc) (auto simp: scan_files_entries)

lemma scan_dirs_entries:
  "scan_dirs fs font_dirs acc = fold accept_entry (font_entries fs font_dirs) acc"
  unfolding scan_dirs_def font_entries_def
  by (induction font_dirs arbitrary: acc) (auto simp: scan_walk_entries)

lemma accept_fold_names:
  "snd acc = map fst (fst acc) \<Longrightarrow>
   snd (fold accept_entry es acc) = map fst (fst (fold accept_entry es acc))"
proof (induction es arbitrary: acc)
  case Nil
  then show ?case by simp
next
  case (Cons e es)
  have "snd (accept_entry e acc) = map fst (fst (accept_entry e acc))"
    using Cons.prems by (auto simp: accept_entry_def split: prod.splits)
  from Cons.IH [OF this] show ?case by simp
qed

lemma accept_fold_distinct:
  "distinct (map fst (fst acc)) \<Longrightarrow> distinct (map fst (fst (fold accept_entry es acc)))"
proof (induction es arbitrary: acc)
  case Nil
  then show ?case by simp
next
  case (Cons e es)
  have "distinct (map fst (fst (accept_entry e acc)))"
    using Cons.prems
    by (auto simp: accept_entry_def map_of_eq_None_iff split: prod.splits)
  from Cons.IH [OF this] show ?case by simp
qed

lemma accept_fold_lookup:
  "map_of (fst (fold accept_entry es acc)) n
   = (case map_of (fst acc) n of
        Some p \<Rightarrow> Some p
      | None \<Rightarrow> if n = [] then None else map_of es n)"
proof (induction es arbitrary: acc)
  case Nil
  then show ?case by (simp split: option.splits)
next
  case (Cons e es)
  obtain tp vf where acc: "acc = (tp, vf)" by (cases acc)
  obtain m p where e: "e = (m, p)" by (cases e)
  show ?case
    unfolding fold_simps Cons.IH
    by (auto simp: acc e accept_entry_def map_of_append split: option.splits)
qed

lemma accept_fold_all:
  assumes "distinct (map fst es)" and "[] \<notin> fst ` set es"
    and "fst ` set (fst acc) \<inter> fst ` set es = {}"
  shows "fst (fold accept_entry es acc) = fst acc @ es"
  using assms
proof (induction es arbitrary: acc)
  case Nil
  then show ?case by simp
next
  case (Cons e es)
  obtain tp vf where acc: "acc = (tp, vf)" by (cases acc)
  from Cons.prems have ne: "fst e \<noteq> []" and fresh: "map_of tp (fst e) = None"
    by (auto simp: acc map_of_eq_None_iff)
  then have step: "accept_entry e acc = (tp @ [e], vf @ [fst e])"
    by (simp add: accept_entry_def acc)
  have d: "distinct (map fst es)" and n: "[] \<notin> fst ` set es"
    using Cons.prems by auto
  have "fst ` set (tp @ [e]) \<inter> fst ` set es = {}"
    using Cons.prems by (auto simp: acc)
  then have i: "fst ` set (fst (tp @ [e], vf @ [fst e])) \<inter> fst ` set es = {}"
    by simp
  from Cons.IH [OF d n i]
  have "fst (fold accept_entry es (tp @ [e], vf @ [fst e])) = (tp @ [e]) @ es"
    by simp
  moreover have "accept_entry e (tp, vf) = (tp @ [e], vf @ [fst e])"
    using step acc by simp
  ultimately show ?case by (simp add: acc)
qed


section \<open>Claims\<close>

text \<open>
  C7. Font name cleaning strips at most one trailing style suffix, and the suffix it
  strips is the first entry of the fixed candidate list that the name ends with:
  a name that ends with no entry is unchanged; when the list splits as
  \<open>pre @ s # post\<close> with no entry of \<open>pre\<close> matching and \<open>s\<close> matching, the cleaned
  name is the name without \<open>s\<close> (in particular when \<open>s\<close> is the only matching entry);
  in every case the result is the name itself or the name without one list entry.
  The match is case-sensitive (\<open>Foo-bold\<close> is unchanged), order-sensitive and not the
  longest (\<open>Foo-Italic\<close> loses \<open>Italic\<close>, not \<open>-Italic\<close>), and only one suffix goes
  (\<open>FooBoldItalic\<close> becomes \<open>FooBold\<close>).
\<close>

theorem clean_font_name_strips_first_match:
  "((\<forall>s \<in> set style_suffixes. \<not> endswith name s) \<longrightarrow> clean_font_name name = name)
   \<and> (style_suffixes = pre @ s # post \<and> (\<forall>p \<in> set pre. \<not> endswith name p) \<and> endswith name s
        \<longrightarrow> name = clean_font_name name @ s)
   \<and> ((\<exists>!s. s \<in> set style_suffixes \<and> endswith name s)
        \<longrightarrow> (\<exists>s \<in> set style_suffixes. endswith name s \<and> name = clean_font_name name @ s))
   \<and> (clean_font_name name = name
        \<or> (\<exists>s \<in> set style_suffixes. endswith name s \<and> name = clean_font_name name @ s))
   \<and> clean_font_name ''Foo-bold'' = ''Foo-bold''
   \<and> clean_font_name ''Foo-Italic'' = ''Foo-''
   \<and> clean_font_name ''FooBoldItalic'' = ''FooBold''"
proof -
  have none: "(\<forall>s \<in> set style_suffixes. \<not> endswith name s) \<longrightarrow> clean_font_name name = name"
    by (simp add: clean_font_name_def strip_first_suffix_none)
  have first: "style_suffixes = pre @ s # post \<and> (\<forall>p \<in> set pre. \<not> endswith name p)
      \<and> endswith name s \<longrightarrow> name = clean_font_name name @ s"
  proof (intro impI, elim conjE)
    assume split: "style_suffixes = pre @ s # post"
      and pre: "\<forall>p \<in> set pre. \<not> endswith name p" and s: "endswith name s"
    from split have "s \<in> set style_suffixes" by (metis in_set_conv_decomp)
    with style_suffixes_nonempty have "s \<noteq> []" by auto
    with pre s show "name = clean_font_name name @ s"
      unfolding clean_font_name_def split by (rule strip_first_suffix_first)
  qed
  have cases: "clean_font_name name = name
      \<or> (\<exists>s \<in> set style_suffixes. endswith name s \<and> name = clean_font_name name @ s)"
    unfolding clean_font_name_def
    by (rule strip_first_suffix_cases [OF style_suffixes_nonempty])
  have one: "(\<exists>!s. s \<in> set style_suffixes \<and> endswith name s)
      \<longrightarrow> (\<exists>s \<in> set style_suffixes. endswith name s \<and> name = clean_font_name name @ s)"
  proof
    assume "\<exists>!s. s \<in> set style_suffixes \<and> endswith name s"
    then have "\<exists>t \<in> set style_suffixes. endswith name t" by auto
    then show "\<exists>s \<in> set style_suffixes. endswith name s \<and> name = clean_font_name name @ s"
      unfolding clean_font_name_def
      by (rule strip_first_suffix_some [OF style_suffixes_nonempty])
  qed
  have ex1: "clean_font_name ''Foo-bold'' = ''Foo-bold''"
    by (simp add: clean_font_name_def style_suffixes_def endswith_def slice_to_neg_def)
  have ex2: "clean_font_name ''Foo-Italic'' = ''Foo-''"
    by (simp add: clean_font_name_def style_suffixes_def endswith_def slice_to_neg_def)
  have ex3: "clean_font_name ''FooBoldItalic'' = ''FooBold''"
    by (simp add: clean_font_name_def style_suffixes_def endswith_def slice_to_neg_def)
  from none first one cases ex1 ex2 ex3 show ?thesis by blast
qed

theorem clean_font_name_strips_first_match_witness:
  "style_suffixes = [''-Regular''] @ ''-Bold'' # [''Regular'', ''Bold'', ''Italic'', ''-Italic'']
   \<and> \<not> endswith ''Arial-Bold'' ''-Regular''
   \<and> endswith ''Arial-Bold'' ''-Bold''
   \<and> ''Arial-Bold'' = clean_font_name ''Arial-Bold'' @ ''-Bold''"
  using clean_font_name_strips_first_match
    [of "''Arial-Bold''" "[''-Regular'']" "''-Bold''" "[''Regular'', ''Bold'', ''Italic'', ''-Italic'']"]
  by (simp add: style_suffixes_def endswith_def)



text \<open>
  C3. The colour image and the mask depend on the application state only through the
  outline switch, the outline width and the two colours: two states that agree on
  these give the same colour image and the same mask for the same arguments and
  font, and rendering with a given font returns the state it was given.
\<close>

theorem render_depends_only_on_request:
  assumes "outline_enabled s1 = outline_enabled s2"
    and "outline_width_var s1 = outline_width_var s2"
    and "text_color_rgb s1 = text_color_rgb s2"
    and "outline_color_rgb s1 = outline_color_rgb s2"
  shows "fst (create_text_image_pil lib s1 text sz font_size (Some font) alignment position
                padding line_spacing)
         = fst (create_text_image_pil lib s2 text sz font_size (Some font) alignment position
                  padding line_spacing)
       \<and> snd (create_text_image_pil lib s1 text sz font_size (Some font) alignment position
                padding line_spacing) = s1
       \<and> create_mask_image lib s1 text sz font alignment position padding line_spacing
         = create_mask_image lib s2 text sz font alignment position padding line_spacing"
  using assms
  by (simp add: create_text_image_pil_def create_mask_image_def Let_def
      split: sum.splits prod.splits)

theorem render_depends_only_on_request_witness:
  "outline_enabled (init_app :: string app)
     = outline_enabled (arial_app\<lparr>text_input := ''other'', preview_req_id := 7\<rparr>)
   \<and> fst (create_text_image_pil example_pil init_app ''7'' 512 50 (Some ''f'') ''Left''
            ''Top Left'' 20 4)
     = fst (create_text_image_pil example_pil (arial_app\<lparr>text_input := ''other'', preview_req_id := 7\<rparr>)
              ''7'' 512 50 (Some ''f'') ''Left'' ''Top Left'' 20 4)
   \<and> snd (create_text_image_pil example_pil init_app ''7'' 512 50 (Some ''f'') ''Left''
            ''Top Left'' 20 4) = init_app"
  using render_depends_only_on_request
    [of init_app "arial_app\<lparr>text_input := ''other'', preview_req_id := 7\<rparr>" example_pil
        "''7''" 512 50 "''f''" "''Left''" "''Top Left''" 20 4]
  by (simp add: init_app_def arial_app_def)

text \<open>
  C10 (as amended). When the selected font name is not in the catalog's name-to-path
  mapping, the sized-font look-up does not raise and leaves the state, the font object
  cache included, as it was; it returns the handle memoized under \<open>(name, size)\<close> if
  there is one, and the built-in default font otherwise.
\<close>

theorem get_font_object_catalog_miss:
  assumes "map_of (font_paths (fonts st)) (font_family_var st) = None"
  shows "snd (get_font_object lib st sz) = st
       \<and> fst (get_font_object lib st sz)
         = (case map_of (font_obj_cache st) (font_family_var st, sz) of
              Some font \<Rightarrow> font
            | None \<Rightarrow> load_default lib)"
  using assms by (simp add: get_font_object_def Let_def split: option.splits)

theorem get_font_object_catalog_miss_witness:
  "map_of (font_paths (fonts (init_app :: string app))) (font_family_var (init_app :: string app)) = None
   \<and> get_font_object example_pil init_app 50 = (''default'', init_app)"
  using get_font_object_catalog_miss [of init_app example_pil 50]
  by (simp add: init_app_def example_pil_def prod_eq_iff)

text \<open>
  The font is loaded and memoized, the rescan empties the catalog, and the next
  look-up of the same name and size returns the memoized handle, not the default font,
  although the name is in no catalog entry.
\<close>

theorem get_font_object_catalog_miss_counterexample:
  "map_of (font_paths (fonts (rescan_clear (snd (get_font_object example_pil arial_app 50)))))
     (font_family_var (rescan_clear (snd (get_font_object example_pil arial_app 50)))) = None
   \<and> fst (get_font_object example_pil
            (rescan_clear (snd (get_font_object example_pil arial_app 50))) 50) = ''/f/Arial.ttf''
   \<and> load_default example_pil = ''default''
   \<and> fst (get_font_object example_pil
            (rescan_clear (snd (get_font_object example_pil arial_app 50))) 50)
       \<noteq> load_default example_pil"
  by (simp add: get_font_object_def rescan_clear_def arial_app_def init_app_def example_pil_def
      Let_def)

text \<open>
  C9. The preview path replaces an empty text by a single space; the export path
  hands the empty text on as it is, so it is the empty text that is measured.
\<close>

theorem export_keeps_empty_text:
  assumes "text_input st = []"
  shows "d_text (fst (gather_and_save lib st)) = Some []
       \<and> (\<exists>job. fst (update_preview_thread_launcher lib (Panel width height) st) = Some job
                \<and> j_text job = '' '')"
  using assms
  by (simp add: gather_and_save_def update_preview_thread_launcher_def Let_def
      split: prod.splits)

theorem export_keeps_empty_text_witness:
  "text_input (init_app\<lparr>text_input := []\<rparr> :: string app) = []
   \<and> d_text (fst (gather_and_save example_pil (init_app\<lparr>text_input := []\<rparr>))) = Some []"
  using export_keeps_empty_text [of "init_app\<lparr>text_input := []\<rparr>" example_pil]
  by simp

text \<open>
  C2. Submitting a preview render increments the counter and tags the job with the new
  value; \<open>_apply_preview\<close> leaves the state untouched when the tag differs from the
  current counter, and shows an image only when the tag equals it. Consequently, for
  every sequence of submissions, text edits, worker runs and applications, from any
  starting state, the request ids that reached the preview label are strictly
  increasing: no result older than the last applied one is ever applied.
\<close>

theorem preview_applies_in_order:
  "preview_req_id (snd (update_preview_thread_launcher lib wd st)) = preview_req_id st + 1
   \<and> (\<forall>job. fst (update_preview_thread_launcher lib wd st) = Some job
          \<longrightarrow> j_req_id job = preview_req_id st + 1)
   \<and> (req_id \<noteq> preview_req_id st \<longrightarrow> apply_preview tk st img req_id = (st, False))
   \<and> (snd (apply_preview tk st img req_id) \<longrightarrow> req_id = preview_req_id st)
   \<and> sorted_wrt (<) (applied_ids (run lib evs (start st)))"
proof -
  have "sched_ok (run lib evs (start st))"
    by (rule sched_ok_run [OF sched_ok_start])
  then have "sorted_wrt (<) (applied_ids (run lib evs (start st)))"
    by (simp add: sched_ok_def sched_inv_def)
  moreover have "req_id \<noteq> preview_req_id st \<longrightarrow> apply_preview tk st img req_id = (st, False)"
    by (simp add: apply_preview_def)
  moreover have "\<forall>job. fst (update_preview_thread_launcher lib wd st) = Some job
      \<longrightarrow> j_req_id job = preview_req_id st + 1"
    using launcher_tag [of lib wd st] by blast
  ultimately show ?thesis
    using launcher_counter [of lib wd st] apply_preview_shown [of tk st img req_id]
    by blast
qed

theorem preview_applies_in_order_witness:
  "(2::int) \<noteq> preview_req_id (init_app :: string app)
   \<and> apply_preview TkOk (init_app :: string app) (Image ''RGBA'' (1, 1) (RGBA 0 0 0 0) []) 2
     = (init_app, False)
   \<and> snd (apply_preview TkOk (init_app :: string app) (Image ''RGBA'' (1, 1) (RGBA 0 0 0 0) []) 0)
   \<and> (0::int) = preview_req_id (init_app :: string app)
   \<and> (\<exists>job. fst (update_preview_thread_launcher example_pil (Panel 800 600) init_app) = Some job
             \<and> j_req_id job = preview_req_id (init_app :: string app) + 1)
   \<and> applied_ids (run example_pil
        [Launch (Panel 800 600), Launch (Panel 800 600), WorkerRun, WorkerRun, MainApply TkOk,
         MainApply TkOk] (start init_app)) = [2]
   \<and> sorted_wrt (<) (applied_ids (run example_pil
        [Launch (Panel 800 600), Launch (Panel 800 600), WorkerRun, WorkerRun, MainApply TkOk,
         MainApply TkOk] (start init_app)))"
proof -
  have ne: "(2::int) \<noteq> preview_req_id (init_app :: string app)"
    by (simp add: init_app_def)
  have shown: "snd (apply_preview TkOk (init_app :: string app)
      (Image ''RGBA'' (1, 1) (RGBA 0 0 0 0) []) 0)"
    by (simp add: apply_preview_def init_app_def)
  have job: "\<exists>job. fst (update_preview_thread_launcher example_pil (Panel 800 600) init_app)
      = Some job"
    by (simp add: update_preview_thread_launcher_def Let_def split: prod.splits)
  have ids: "applied_ids (run example_pil
        [Launch (Panel 800 600), Launch (Panel 800 600), WorkerRun, WorkerRun, MainApply TkOk,
         MainApply TkOk] (start init_app)) = [2]"
    by code_simp
  note t1 = preview_applies_in_order [of example_pil "Panel 800 600" init_app 2 TkOk
      "Image ''RGBA'' (1, 1) (RGBA 0 0 0 0) []"
      "[Launch (Panel 800 600), Launch (Panel 800 600), WorkerRun, WorkerRun, MainApply TkOk,
        MainApply TkOk]"]
  note t2 = preview_applies_in_order [of example_pil "Panel 800 600" init_app 0 TkOk
      "Image ''RGBA'' (1, 1) (RGBA 0 0 0 0) []" "[]"]
  from t1 ne have a: "apply_preview TkOk (init_app :: string app)
      (Image ''RGBA'' (1, 1) (RGBA 0 0 0 0) []) 2 = (init_app, False)"
    by blast
  from t2 shown have z: "(0::int) = preview_req_id (init_app :: string app)"
    by blast
  from t1 job have j: "\<exists>job. fst (update_preview_thread_launcher example_pil (Panel 800 600)
      init_app) = Some job \<and> j_req_id job = preview_req_id (init_app :: string app) + 1"
    by blast
  from t1 have so: "sorted_wrt (<) (applied_ids (run example_pil
        [Launch (Panel 800 600), Launch (Panel 800 600), WorkerRun, WorkerRun, MainApply TkOk,
         MainApply TkOk] (start init_app)))"
    by blast
  from ne a shown z j ids so show ?thesis
    by blast
qed

text \<open>
  C6. Let \<open>normalized\<close> be the path with every backslash replaced by a slash. It contains
  a \<open>materials\<close> directory segment (a segment of that name which is neither the first
  nor the last of the path split at the slashes) exactly when \<open>/materials/\<close> occurs in it.
  If so, the reference
  returned is \<open>materials/\<close> followed by what comes after the leftmost occurrence:
  the path from that segment on. If not, the reference is \<open>materials/\<close>, the base name
  of the directory part, a slash and the base name of the path; for a path
  \<open>d/parent/filename\<close> these are the parent directory's name and the file name.
\<close>

theorem texture_reference_by_materials_segment:
  assumes "normalized = map (\<lambda>c. if c = CHR 0x5C then CHR ''/'' else c) absolute_path"
  shows "(''materials'' \<in> set (butlast (tl (segments normalized)))
            \<longleftrightarrow> py_in ''/materials/'' normalized)
       \<and> (py_in ''/materials/'' normalized
            \<longleftrightarrow> (\<exists>pre post. normalized = pre @ ''/materials/'' @ post))
       \<and> (py_in ''/materials/'' normalized \<longrightarrow>
            (\<exists>pre post. normalized = pre @ ''/materials/'' @ post
               \<and> \<not> py_in ''/materials/'' (pre @ ''/materials'')
               \<and> get_relative_texture_path absolute_path = Inr (''materials/'' @ post)))
       \<and> (\<not> py_in ''/materials/'' normalized \<longrightarrow>
            get_relative_texture_path absolute_path
              = Inr (''materials/'' @ basename (dirname normalized) @ ''/'' @ basename normalized))
       \<and> (\<not> py_in ''/materials/'' normalized
            \<and> normalized = d @ ''/'' @ parent @ ''/'' @ filename
            \<and> CHR ''/'' \<notin> set parent \<and> CHR ''/'' \<notin> set filename \<and> parent \<noteq> [] \<longrightarrow>
            get_relative_texture_path absolute_path
              = Inr (''materials/'' @ parent @ ''/'' @ filename))"
proof -
  have n: "py_replace [CHR 0x5C] ''/'' absolute_path = normalized"
    by (simp only: assms py_replace_single)
  have seg: "''materials'' \<in> set (butlast (tl (segments normalized)))
      \<longleftrightarrow> py_in ''/materials/'' normalized"
    using inner_segment [of "''materials''" normalized] by simp
  have occ: "py_in ''/materials/'' normalized
      \<longleftrightarrow> (\<exists>pre post. normalized = pre @ ''/materials/'' @ post)"
    by (rule py_in_iff)
  have found: "py_in ''/materials/'' normalized \<longrightarrow>
      (\<exists>pre post. normalized = pre @ ''/materials/'' @ post
         \<and> \<not> py_in ''/materials/'' (pre @ ''/materials'')
         \<and> get_relative_texture_path absolute_path = Inr (''materials/'' @ post))"
    using get_relative_texture_path_found [of absolute_path, unfolded n] by (rule impI)
  have fallback: "\<not> py_in ''/materials/'' normalized \<longrightarrow>
      get_relative_texture_path absolute_path
        = Inr (''materials/'' @ basename (dirname normalized) @ ''/'' @ basename normalized)"
    using get_relative_texture_path_fallback [of absolute_path, unfolded n] by (rule impI)
  have named: "\<not> py_in ''/materials/'' normalized
      \<and> normalized = d @ ''/'' @ parent @ ''/'' @ filename
      \<and> CHR ''/'' \<notin> set parent \<and> CHR ''/'' \<notin> set filename \<and> parent \<noteq> [] \<longrightarrow>
      get_relative_texture_path absolute_path = Inr (''materials/'' @ parent @ ''/'' @ filename)"
  proof (intro impI, elim conjE)
    assume nin: "\<not> py_in ''/materials/'' normalized"
      and dec: "normalized = d @ ''/'' @ parent @ ''/'' @ filename"
      and p: "CHR ''/'' \<notin> set parent" and f: "CHR ''/'' \<notin> set filename" and pn: "parent \<noteq> []"
    from parent_and_filename [OF dec p f pn]
    have "basename (dirname normalized) = parent" and "basename normalized = filename"
      by simp_all
    with fallback nin
    show "get_relative_texture_path absolute_path = Inr (''materials/'' @ parent @ ''/'' @ filename)"
      by simp
  qed
  from seg occ found fallback named show ?thesis by (intro conjI)
qed

theorem texture_reference_by_materials_segment_witness:
  "''/home/u/out/seven_color.png''
     = map (\<lambda>c. if c = CHR 0x5C then CHR ''/'' else c) ''/home/u/out/seven_color.png''
   \<and> \<not> py_in ''/materials/'' ''/home/u/out/seven_color.png''
   \<and> get_relative_texture_path ''/home/u/out/seven_color.png''
     = Inr (''materials/'' @ ''out'' @ ''/'' @ ''seven_color.png'')
   \<and> py_in ''/materials/'' ''/home/u/game/materials/decals/seven_color.png''
   \<and> (\<exists>post. get_relative_texture_path ''/home/u/game/materials/decals/seven_color.png''
               = Inr (''materials/'' @ post))
   \<and> get_relative_texture_path ''/home/u/game/materials/decals/seven_color.png''
     = Inr ''materials/decals/seven_color.png''"
proof -
  have n1: "''/home/u/out/seven_color.png''
     = map (\<lambda>c. if c = CHR 0x5C then CHR ''/'' else c) ''/home/u/out/seven_color.png''"
    by simp
  have nin: "\<not> py_in ''/materials/'' ''/home/u/out/seven_color.png''"
    by code_simp
  have dec: "''/home/u/out/seven_color.png'' = ''/home/u'' @ ''/'' @ ''out'' @ ''/'' @ ''seven_color.png''"
    by simp
  have p: "CHR ''/'' \<notin> set ''out''" and f: "CHR ''/'' \<notin> set ''seven_color.png''"
    and pn: "''out'' \<noteq> []"
    by simp_all
  have r1: "get_relative_texture_path ''/home/u/out/seven_color.png''
     = Inr (''materials/'' @ ''out'' @ ''/'' @ ''seven_color.png'')"
    using texture_reference_by_materials_segment
      [OF n1, of "''/home/u''" "''out''" "''seven_color.png''"] nin dec p f pn
    by blast
  have n2: "''/home/u/game/materials/decals/seven_color.png''
     = map (\<lambda>c. if c = CHR 0x5C then CHR ''/'' else c)
         ''/home/u/game/materials/decals/seven_color.png''"
    by simp
  have yes: "py_in ''/materials/'' ''/home/u/game/materials/decals/seven_color.png''"
    by code_simp
  have r2: "\<exists>post. get_relative_texture_path ''/home/u/game/materials/decals/seven_color.png''
               = Inr (''materials/'' @ post)"
    using texture_reference_by_materials_segment [OF n2] yes by blast
  have r3: "get_relative_texture_path ''/home/u/game/materials/decals/seven_color.png''
     = Inr ''materials/decals/seven_color.png''"
    by code_simp
  from n1 nin r1 yes r2 r3 show ?thesis by blast
qed






text \<open>
  C8 (as amended). Let \<open>es\<close> be the font files of the directories in traversal order,
  each with its cleaned name. A scan with no cache file, the save that ends it and
  the load of the next start give the catalog of the scan: the name list and the
  name-to-path mapping are those the scan built. The name list is sorted and without
  duplicates, and holds the cleaned names that are not empty; the mapping has these
  names as its keys and sends each to the path of the first file with that cleaned
  name. When the \<open>N\<close> files have pairwise different cleaned names, none of them
  empty, the catalog has exactly \<open>N\<close> entries: the mapping is \<open>es\<close> itself.
\<close>

theorem scan_save_load_roundtrip:
  assumes "cache_file d = None" and "cache_writable d"
    and "es = font_entries fs font_dirs"
    and "scanned = fst (scan_fonts_thread fs font_dirs c d)"
    and "loaded = fst (scan_fonts_thread fs' font_dirs' c' (snd (scan_fonts_thread fs font_dirs c d)))"
  shows "available_fonts loaded = available_fonts scanned
       \<and> font_paths loaded = font_paths scanned
       \<and> sorted (available_fonts loaded) \<and> distinct (available_fonts loaded)
       \<and> set (available_fonts loaded) = {n \<in> fst ` set es. n \<noteq> []}
       \<and> set (map fst (font_paths loaded)) = set (available_fonts loaded)
       \<and> distinct (map fst (font_paths loaded))
       \<and> (\<forall>n. map_of (font_paths loaded) n = (if n = [] then None else map_of es n))
       \<and> (distinct (map fst es) \<and> [] \<notin> fst ` set es \<longrightarrow>
            length (available_fonts loaded) = length es \<and> font_paths loaded = es)"
proof -
  obtain tp vf where acc: "fold accept_entry es ([], []) = (tp, vf)"
    by (cases "fold accept_entry es ([], [])")
  have vf: "vf = map fst tp"
    using accept_fold_names [of "([], [])" es] acc by simp
  have dist: "distinct (map fst tp)"
    using accept_fold_distinct [of "([], [])" es] acc by simp
  have look: "map_of tp n = (if n = [] then None else map_of es n)" for n
    using accept_fold_lookup [of es "([], [])" n] acc by simp
  have keys: "set (map fst tp) = {n \<in> fst ` set es. n \<noteq> []}"
  proof -
    have "n \<in> set (map fst tp) \<longleftrightarrow> n \<in> fst ` set es \<and> n \<noteq> []" for n
    proof -
      have "n \<in> set (map fst tp) \<longleftrightarrow> map_of tp n \<noteq> None"
        by (simp add: map_of_eq_None_iff)
      also have "\<dots> \<longleftrightarrow> n \<noteq> [] \<and> map_of es n \<noteq> None"
        by (simp add: look)
      also have "\<dots> \<longleftrightarrow> n \<in> fst ` set es \<and> n \<noteq> []"
        by (auto simp: map_of_eq_None_iff)
      finally show ?thesis .
    qed
    then show ?thesis by blast
  qed
  have sc: "scanned = c\<lparr>available_fonts := sort (remdups vf), font_paths := tp\<rparr>"
    using assms(1) acc
    by (simp add: assms(4) scan_fonts_thread_def load_cache_def scan_dirs_entries assms(3) Let_def)
  have dk: "cache_file (snd (scan_fonts_thread fs font_dirs c d))
      = Some (Cached (sort (remdups vf)) tp)"
    using assms(1,2) acc
    by (simp add: scan_fonts_thread_def load_cache_def scan_dirs_entries assms(3) Let_def
        save_cache_def)
  have ld: "loaded = c'\<lparr>available_fonts := sort (remdups vf), font_paths := tp\<rparr>"
    using dk by (simp add: assms(5) scan_fonts_thread_def load_cache_def)
  have rd: "remdups vf = map fst tp" using dist vf by (simp add: distinct_remdups_id)
  have sc': "scanned = c\<lparr>available_fonts := sort (map fst tp), font_paths := tp\<rparr>"
    using sc by (simp only: rd)
  have ld': "loaded = c'\<lparr>available_fonts := sort (map fst tp), font_paths := tp\<rparr>"
    using ld by (simp only: rd)
  have all: "distinct (map fst es) \<and> [] \<notin> fst ` set es \<longrightarrow>
      length (available_fonts loaded) = length es \<and> font_paths loaded = es"
  proof
    assume a: "distinct (map fst es) \<and> [] \<notin> fst ` set es"
    then have d: "distinct (map fst es)" and n: "[] \<notin> fst ` set es"
      by simp_all
    have "fst (fold accept_entry es ([], [])) = es"
      using accept_fold_all [OF d n, of "([], [])"] by simp
    with acc have "tp = es" by simp
    then show "length (available_fonts loaded) = length es \<and> font_paths loaded = es"
      by (simp add: ld')
  qed
  show ?thesis
    using all keys dist look
    by (simp add: sc' ld')
qed

theorem scan_save_load_roundtrip_witness:
  "cache_file fresh_disk = None \<and> cache_writable fresh_disk
   \<and> font_entries distinct_fs [''/f'', ''/g'']
     = [(''Zed'', ''/f/Zed.otf''), (''Arial'', ''/f/a/Arial-Bold.TTF'')]
   \<and> distinct (map fst (font_entries distinct_fs [''/f'', ''/g'']))
   \<and> [] \<notin> fst ` set (font_entries distinct_fs [''/f'', ''/g''])
   \<and> font_paths (fst (scan_fonts_thread example_fs [] empty_catalog
          (snd (scan_fonts_thread distinct_fs [''/f'', ''/g''] empty_catalog fresh_disk))))
     = [(''Zed'', ''/f/Zed.otf''), (''Arial'', ''/f/a/Arial-Bold.TTF'')]
   \<and> available_fonts (fst (scan_fonts_thread example_fs [] empty_catalog
          (snd (scan_fonts_thread distinct_fs [''/f'', ''/g''] empty_catalog fresh_disk))))
     = [''Arial'', ''Zed'']"
proof -
  let ?loaded = "fst (scan_fonts_thread example_fs [] empty_catalog
      (snd (scan_fonts_thread distinct_fs [''/f'', ''/g''] empty_catalog fresh_disk)))"
  have c: "cache_file fresh_disk = None" and w: "cache_writable fresh_disk"
    by (simp_all add: fresh_disk_def)
  have e: "font_entries distinct_fs [''/f'', ''/g'']
     = [(''Zed'', ''/f/Zed.otf''), (''Arial'', ''/f/a/Arial-Bold.TTF'')]"
    by code_simp
  have d: "distinct (map fst (font_entries distinct_fs [''/f'', ''/g'']))"
    and n: "[] \<notin> fst ` set (font_entries distinct_fs [''/f'', ''/g''])"
    by (simp_all add: e)
  have a: "available_fonts ?loaded = [''Arial'', ''Zed'']"
    by code_simp
  note t = scan_save_load_roundtrip [OF c w refl refl refl, where fs = distinct_fs
      and font_dirs = "[''/f'', ''/g'']" and c = empty_catalog and fs' = example_fs
      and font_dirs' = "[]" and c' = empty_catalog]
  from t d n have "font_paths ?loaded = font_entries distinct_fs [''/f'', ''/g'']"
    by blast
  then have p: "font_paths ?loaded = [(''Zed'', ''/f/Zed.otf''), (''Arial'', ''/f/a/Arial-Bold.TTF'')]"
    by (simp only: e)
  from c w e d n p a show ?thesis by blast
qed

text \<open>
  Two font files with the different cleaned names \<open>Arial\<close> and the empty name (all of
  \<open>Bold.ttf\<close> is a style suffix): no collision among \<open>N = 2\<close> names, but the empty name is
  skipped and the catalog after scan, save and load has one entry.
\<close>

theorem scan_save_load_roundtrip_counterexample:
  "font_entries example_fs [''/f''] = [([], ''/f/Bold.ttf''), (''Arial'', ''/f/Arial.ttf'')]
   \<and> distinct (map fst (font_entries example_fs [''/f'']))
   \<and> length (font_entries example_fs [''/f'']) = 2
   \<and> available_fonts (fst (scan_fonts_thread example_fs [''/f''] empty_catalog
          (snd (scan_fonts_thread example_fs [''/f''] empty_catalog fresh_disk)))) = [''Arial'']
   \<and> font_paths (fst (scan_fonts_thread example_fs [''/f''] empty_catalog
          (snd (scan_fonts_thread example_fs [''/f''] empty_catalog fresh_disk))))
     = [(''Arial'', ''/f/Arial.ttf'')]"
proof -
  have e: "font_entries example_fs [''/f''] = [([], ''/f/Bold.ttf''), (''Arial'', ''/f/Arial.ttf'')]"
    by code_simp
  have a: "available_fonts (fst (scan_fonts_thread example_fs [''/f''] empty_catalog
          (snd (scan_fonts_thread example_fs [''/f''] empty_catalog fresh_disk)))) = [''Arial'']"
    by code_simp
  have p: "font_paths (fst (scan_fonts_thread example_fs [''/f''] empty_catalog
          (snd (scan_fonts_thread example_fs [''/f''] empty_catalog fresh_disk))))
     = [(''Arial'', ''/f/Arial.ttf'')]"
    by code_simp
  from a p show ?thesis by (simp add: e)
qed

end
